theory Spec2Isabelle
  imports Complex_Main
begin

section \<open>Smart Parking Lot: the data operations of \<open>main_app.py\<close>\<close>

text \<open>
  The program keeps three SQLite tables (\<open>slots\<close>, \<open>vehicles\<close>, \<open>payments\<close>) and runs
  its operations from Tk button callbacks: \<open>add_vehicle_window.submit\<close> (park),
  \<open>exit_vehicle_window.submit_exit\<close> (exit and pay), \<open>add_slots_window.update_slots\<close>
  (provision slots), \<open>payments_window\<close> (revenue total) and \<open>update_status_label\<close>
  (counters). The model below keeps the tables as lists of rows in rowid order, which is
  the order of a table scan, and passes the database explicitly.

  Conventions of the model:
  \<^item> a timestamp text \<open>YYYY-MM-DD HH:MM:SS\<close> is the number of whole seconds of local
    wall-clock time it denotes (an \<open>int\<close>); \<open>datetime.now()\<close> is a number of microseconds;
  \<^item> a Python \<open>float\<close> and an SQLite \<open>REAL\<close> are exact rationals (every amount the program
    stores is a whole number of minutes);
  \<^item> a message box is the error value returned: \<open>showwarning("Input", ...)\<close> is
    \<open>ValidationError\<close>, \<open>showerror("Invalid", ...)\<close> is \<open>ValidationError\<close>,
    \<open>showerror("Full", ...)\<close> is \<open>Full\<close>, \<open>showerror("Error", "Vehicle number already
    exists.")\<close> is \<open>Conflict\<close>, \<open>showerror("Not found", ...)\<close> is \<open>NotFound\<close>.
\<close>

subsection \<open>Tables\<close>

record slot_row =
  slot_id :: nat
  slot_number :: string
  is_occupied :: int

record vehicle_row =
  vehicle_id :: nat
  owner_name :: string
  vehicle_number :: string
  v_slot_id :: nat
  entry_time :: int
  exit_time :: "int option"

record payment_row =
  payment_id :: nat
  p_vehicle_id :: nat
  amount :: rat
  payment_time :: int

text \<open>
  The three \<open>seq_\<close> fields are the rows of \<open>sqlite_sequence\<close>: every primary key is
  declared \<open>AUTOINCREMENT\<close>.
\<close>

record db =
  slots :: "slot_row list"
  vehicles :: "vehicle_row list"
  payments :: "payment_row list"
  seq_slots :: nat
  seq_vehicles :: nat
  seq_payments :: nat

datatype error = ValidationError | Full | Conflict | NotFound

text \<open>\<open>ensure_tables_exist\<close> on a new file: three empty tables.\<close>

definition empty_db :: db where
  "empty_db = \<lparr>slots = [], vehicles = [], payments = [],
                seq_slots = 0, seq_vehicles = 0, seq_payments = 0\<rparr>"

subsection \<open>Connections and transactions\<close>

text \<open>
  \<open>sqlite3.connect\<close> opens a connection whose data-changing statements run in a
  transaction: they change the working copy, \<open>conn.commit()\<close> makes the working copy the
  stored database, and \<open>conn.close()\<close> drops whatever was not committed.
\<close>

record connection =
  committed :: db
  working :: db

definition get_connection :: "db \<Rightarrow> connection" where
  "get_connection st = \<lparr>committed = st, working = st\<rparr>"

definition execute :: "(db \<Rightarrow> db) \<Rightarrow> connection \<Rightarrow> connection" where
  "execute stmt conn = conn\<lparr>working := stmt (working conn)\<rparr>"

definition commit :: "connection \<Rightarrow> connection" where
  "commit conn = conn\<lparr>committed := working conn\<rparr>"

definition close :: "connection \<Rightarrow> db" where
  "close conn = committed conn"

subsection \<open>Python and SQLite primitives\<close>

text \<open>
  \<open>str.strip()\<close> removes leading and trailing whitespace. Of the characters a
  \<open>char\<close> can hold (code points below 256) Python counts as whitespace 9 to 13, 28 to 32,
  133 and 160.
\<close>

definition is_space :: "char \<Rightarrow> bool" where
  "is_space c = (let n = (of_char c :: nat) in
     (9 \<le> n \<and> n \<le> 13) \<or> (28 \<le> n \<and> n \<le> 32) \<or> n = 133 \<or> n = 160)"

definition strip :: "string \<Rightarrow> string" where
  "strip s = rev (dropWhile is_space (rev (dropWhile is_space s)))"

text \<open>\<open>f"{i}"\<close> for an integer: its decimal digits, with a sign when negative.\<close>

definition digit_char :: "nat \<Rightarrow> char" where
  "digit_char d = ''0123456789'' ! d"

fun str_nat :: "nat \<Rightarrow> string" where
  "str_nat n = (if n < 10 then [digit_char n]
                else str_nat (n div 10) @ [digit_char (n mod 10)])"

declare str_nat.simps [simp del]

definition str_int :: "int \<Rightarrow> string" where
  "str_int i = (if i < 0 then CHR ''-'' # str_nat (nat (- i)) else str_nat (nat i))"

text \<open>\<open>now.strftime("%Y-%m-%d %H:%M:%S")\<close>: the microseconds are dropped.\<close>

definition strftime :: "int \<Rightarrow> int" where
  "strftime now = now div 1000000"

text \<open>
  \<open>datetime.strptime(entry_time_str, ...)\<close> gives back the datetime of a stored text,
  with no microseconds; \<open>(now - entry_dt).total_seconds()\<close> is their difference in
  seconds.
\<close>

definition strptime :: "int \<Rightarrow> int" where
  "strptime t = t * 1000000"

definition total_seconds :: "int \<Rightarrow> rat" where
  "total_seconds delta = of_int delta / 1000000"

text \<open>\<open>int(x)\<close> on a float truncates towards zero.\<close>

definition py_int :: "rat \<Rightarrow> int" where
  "py_int x = (if 0 \<le> x then \<lfloor>x\<rfloor> else \<lceil>x\<rceil>)"

text \<open>\<open>round(x, 2)\<close>: the nearest multiple of 0.01, a tie going to the even one.\<close>

definition round_half_even :: "rat \<Rightarrow> int" where
  "round_half_even x =
     (let f = \<lfloor>x\<rfloor>; d = x - of_int f
      in if d < 1 / 2 then f else if 1 / 2 < d then f + 1
         else if even f then f else f + 1)"

definition py_round2 :: "rat \<Rightarrow> rat" where
  "py_round2 x = of_int (round_half_even (x * 100)) / 100"

text \<open>
  An \<open>AUTOINCREMENT\<close> key: one more than the largest key the table has ever held, which
  is the larger of the stored sequence value and the keys present.
\<close>

definition new_rowid :: "nat \<Rightarrow> nat list \<Rightarrow> nat" where
  "new_rowid seq ids = Suc (fold max ids seq)"

subsection \<open>The SQL statements\<close>

text \<open>\<open>SELECT slot_id, slot_number FROM slots WHERE is_occupied=0 LIMIT 1\<close>\<close>

definition select_free_slot :: "db \<Rightarrow> slot_row option" where
  "select_free_slot w = List.find (\<lambda>s. is_occupied s = 0) (slots w)"

text \<open>
  \<open>INSERT INTO vehicles (owner_name, vehicle_number, slot_id, entry_time) VALUES (?,?,?,?)\<close>.
  The column \<open>vehicle_number\<close> is declared \<open>UNIQUE\<close>: the insert raises
  \<open>sqlite3.IntegrityError\<close> (\<open>None\<close>) when any row of the table, whatever its
  \<open>exit_time\<close>, holds the same text, and changes nothing then.
\<close>

definition insert_vehicle :: "string \<Rightarrow> string \<Rightarrow> nat \<Rightarrow> int \<Rightarrow> db \<Rightarrow> db option" where
  "insert_vehicle owner vnum sid entry w =
     (if vnum \<in> set (map vehicle_number (vehicles w)) then None
      else let k = new_rowid (seq_vehicles w) (map vehicle_id (vehicles w))
           in Some (w\<lparr>vehicles := vehicles w @
                        [\<lparr>vehicle_id = k, owner_name = owner, vehicle_number = vnum,
                          v_slot_id = sid, entry_time = entry, exit_time = None\<rparr>],
                      seq_vehicles := k\<rparr>))"

text \<open>\<open>UPDATE slots SET is_occupied=? WHERE slot_id=?\<close>\<close>

definition update_slot_occupied :: "int \<Rightarrow> nat \<Rightarrow> db \<Rightarrow> db" where
  "update_slot_occupied occ sid w =
     w\<lparr>slots := map (\<lambda>s. if slot_id s = sid then s\<lparr>is_occupied := occ\<rparr> else s) (slots w)\<rparr>"

text \<open>
  \<open>SELECT v.vehicle_id, v.entry_time, v.slot_id, s.slot_number
     FROM vehicles v JOIN slots s ON v.slot_id = s.slot_id
     WHERE v.vehicle_number=? AND v.exit_time IS NULL\<close>, then \<open>fetchone()\<close>.
\<close>

definition fetchone :: "'a list \<Rightarrow> 'a option" where
  "fetchone rows = (case rows of [] \<Rightarrow> None | r # _ \<Rightarrow> Some r)"

definition select_active_rows :: "string \<Rightarrow> db \<Rightarrow> (vehicle_row \<times> slot_row) list" where
  "select_active_rows vnum w =
     [(v, s). v \<leftarrow> vehicles w, s \<leftarrow> slots w,
              v_slot_id v = slot_id s, vehicle_number v = vnum, exit_time v = None]"

definition select_active :: "string \<Rightarrow> db \<Rightarrow> (vehicle_row \<times> slot_row) option" where
  "select_active vnum w = fetchone (select_active_rows vnum w)"

text \<open>\<open>UPDATE vehicles SET exit_time=? WHERE vehicle_id=?\<close>\<close>

definition update_exit_time :: "int \<Rightarrow> nat \<Rightarrow> db \<Rightarrow> db" where
  "update_exit_time t vid w =
     w\<lparr>vehicles := map (\<lambda>v. if vehicle_id v = vid then v\<lparr>exit_time := Some t\<rparr> else v)
                        (vehicles w)\<rparr>"

text \<open>\<open>INSERT INTO payments (vehicle_id, amount, payment_time) VALUES (?, ?, ?)\<close>\<close>

definition insert_payment :: "nat \<Rightarrow> rat \<Rightarrow> int \<Rightarrow> db \<Rightarrow> db" where
  "insert_payment vid amt t w =
     (let k = new_rowid (seq_payments w) (map payment_id (payments w))
      in w\<lparr>payments := payments w @
               [\<lparr>payment_id = k, p_vehicle_id = vid, amount = amt, payment_time = t\<rparr>],
            seq_payments := k\<rparr>)"

text \<open>
  \<open>INSERT OR IGNORE INTO slots (slot_number, is_occupied) VALUES (?, 0)\<close>. The column
  \<open>slot_number\<close> is \<open>UNIQUE\<close>: when the label is present no row is written. SQLite
  draws the key before it checks the constraint, so an ignored insert still advances the
  sequence.
\<close>

definition insert_or_ignore_slot :: "string \<Rightarrow> db \<Rightarrow> db" where
  "insert_or_ignore_slot name w =
     (let k = new_rowid (seq_slots w) (map slot_id (slots w))
      in if name \<in> set (map slot_number (slots w)) then w\<lparr>seq_slots := k\<rparr>
         else w\<lparr>slots := slots w @ [\<lparr>slot_id = k, slot_number = name, is_occupied = 0\<rparr>],
                seq_slots := k\<rparr>)"

subsection \<open>The operations\<close>

text \<open>
  \<open>add_vehicle_window.submit\<close>. The arguments are the texts of the two entry fields and
  the clock reading; the result is the label shown in the "Parked" box, or the error.
\<close>

definition submit :: "db \<Rightarrow> string \<Rightarrow> string \<Rightarrow> int \<Rightarrow> (error + string) \<times> db" where
  "submit st win_owner win_number now =
     (let owner = strip win_owner; vnum = strip win_number
      in if vnum = [] then (Inl ValidationError, st)
         else
           let conn = get_connection st
           in case select_free_slot (working conn) of
                None \<Rightarrow> (Inl Full, close conn)
              | Some row \<Rightarrow>
                  (let entry = strftime now
                   in case insert_vehicle owner vnum (slot_id row) entry (working conn) of
                        None \<Rightarrow> (Inl Conflict, close conn)
                      | Some w \<Rightarrow>
                          let conn = conn\<lparr>working := w\<rparr>;
                              conn = execute (update_slot_occupied 1 (slot_id row)) conn;
                              conn = commit conn
                          in (Inr (slot_number row), close conn)))"

text \<open>
  \<open>exit_vehicle_window.submit_exit\<close>. The result is what the "Payment" box shows: slot
  label, minutes and amount.
\<close>

definition billed_minutes :: "int \<Rightarrow> int \<Rightarrow> int" where
  "billed_minutes now entry =
     (let minutes = py_int (total_seconds (now - strptime entry) / 60)
      in max 1 minutes)"

definition rate_per_min :: rat where
  "rate_per_min = 1"

definition submit_exit :: "db \<Rightarrow> string \<Rightarrow> int \<Rightarrow> (error + string \<times> int \<times> rat) \<times> db" where
  "submit_exit st win_number now =
     (let vnum = strip win_number
      in if vnum = [] then (Inl ValidationError, st)
         else
           let conn = get_connection st
           in case select_active vnum (working conn) of
                None \<Rightarrow> (Inl NotFound, close conn)
              | Some (v, s) \<Rightarrow>
                  let minutes = billed_minutes now (entry_time v);
                      amt = py_round2 (of_int minutes * rate_per_min);
                      conn = execute (update_exit_time (strftime now) (vehicle_id v)) conn;
                      conn = execute (update_slot_occupied 0 (v_slot_id v)) conn;
                      conn = execute (insert_payment (vehicle_id v) amt (strftime now)) conn;
                      conn = commit conn
                  in (Inr (slot_number s, minutes, amt), close conn))"

text \<open>
  \<open>add_slots_window.update_slots\<close>. The argument is what \<open>int(entry.get().strip())\<close>
  yields (the source's \<open>total\<close>): \<open>None\<close> when \<open>int\<close> raises \<open>ValueError\<close>. The result is the row count shown
  in the "Success" box.
\<close>

definition slot_name :: "int \<Rightarrow> string" where
  "slot_name i = ''Slot-'' @ str_int i"

definition update_slots :: "db \<Rightarrow> int option \<Rightarrow> (error + nat) \<times> db" where
  "update_slots st parsed =
     (case parsed of
        None \<Rightarrow> (Inl ValidationError, st)
      | Some n \<Rightarrow>
          if n \<le> 0 then (Inl ValidationError, st)
          else
            let conn = get_connection st;
                conn = fold (\<lambda>i. execute (insert_or_ignore_slot (slot_name i))) [1..n] conn;
                conn = commit conn;
                count = length (slots (working conn))
            in (Inr count, close conn))"

text \<open>
  \<open>payments_window\<close>: \<open>SELECT COALESCE(SUM(amount),0) FROM payments\<close>, then
  \<open>cur.fetchone()[0] or 0\<close>, shown as \<open>round(total,2)\<close>. \<open>SUM\<close> over no rows is
  \<open>NULL\<close>.
\<close>

definition sql_sum :: "rat list \<Rightarrow> rat option" where
  "sql_sum xs = (if xs = [] then None else Some (sum_list xs))"

definition coalesce :: "rat option \<Rightarrow> rat \<Rightarrow> rat" where
  "coalesce x d = (case x of None \<Rightarrow> d | Some y \<Rightarrow> y)"

definition total_revenue :: "db \<Rightarrow> rat" where
  "total_revenue st =
     (let fetched = coalesce (sql_sum (map amount (payments st))) 0;
          tot = (if fetched = 0 then 0 else fetched)
      in py_round2 tot)"

text \<open>\<open>update_status_label\<close>: \<open>SELECT COUNT(*) FROM slots WHERE is_occupied=0\<close>\<close>

definition free_count :: "db \<Rightarrow> nat" where
  "free_count st = length (filter (\<lambda>s. is_occupied s = 0) (slots st))"

subsection \<open>Runs of the program\<close>

text \<open>One button press with the texts entered and the clock reading at that moment.\<close>

datatype op = AddSlots "int option" | Park string string int | ExitVehicle string int

fun step :: "db \<Rightarrow> op \<Rightarrow> db" where
  "step st (AddSlots parsed) = snd (update_slots st parsed)"
| "step st (Park win_owner win_number now) = snd (submit st win_owner win_number now)"
| "step st (ExitVehicle win_number now) = snd (submit_exit st win_number now)"

definition run :: "db \<Rightarrow> op list \<Rightarrow> db" where
  "run st ops = fold (\<lambda>x s. step s x) ops st"

subsection \<open>Vocabulary of the properties\<close>

text \<open>
  What SQLite enforces for the declared schema: the three primary keys and the two
  \<open>UNIQUE\<close> columns hold no value twice.
\<close>

definition schema_ok :: "db \<Rightarrow> bool" where
  "schema_ok st \<longleftrightarrow>
     distinct (map slot_id (slots st)) \<and> distinct (map slot_number (slots st)) \<and>
     distinct (map vehicle_id (vehicles st)) \<and> distinct (map vehicle_number (vehicles st)) \<and>
     distinct (map payment_id (payments st))"

text \<open>A session row for the vehicle number exists; an active one has no exit time.\<close>

definition has_session :: "db \<Rightarrow> string \<Rightarrow> bool" where
  "has_session st vnum \<longleftrightarrow> (\<exists>v \<in> set (vehicles st). vehicle_number v = vnum)"

definition has_active_session :: "db \<Rightarrow> string \<Rightarrow> bool" where
  "has_active_session st vnum \<longleftrightarrow>
     (\<exists>v \<in> set (vehicles st). vehicle_number v = vnum \<and> exit_time v = None)"

text \<open>The row that a successful \<open>submit\<close> inserts.\<close>

definition parked_row :: "db \<Rightarrow> string \<Rightarrow> string \<Rightarrow> nat \<Rightarrow> int \<Rightarrow> vehicle_row" where
  "parked_row st owner vnum sid now =
     \<lparr>vehicle_id = new_rowid (seq_vehicles st) (map vehicle_id (vehicles st)),
      owner_name = owner, vehicle_number = vnum, v_slot_id = sid,
      entry_time = strftime now, exit_time = None\<rparr>"

text \<open>
  The billing rule in the words of the specification: minutes are the floor of the
  elapsed time in minutes, at least 1; the fee is minutes times the rate of 1.0, rounded
  to two decimals.
\<close>

definition spec_minutes :: "int \<Rightarrow> int \<Rightarrow> int" where
  "spec_minutes t0 t1 = max 1 \<lfloor>(of_int (t1 - t0) :: rat) / 60\<rfloor>"

definition spec_fee :: "int \<Rightarrow> rat" where
  "spec_fee minutes = py_round2 (of_int minutes * 1)"

text \<open>The session with a given key, and the payments recorded for it.\<close>

definition session :: "db \<Rightarrow> nat \<Rightarrow> vehicle_row option" where
  "session st vid = List.find (\<lambda>v. vehicle_id v = vid) (vehicles st)"

definition bills :: "db \<Rightarrow> nat \<Rightarrow> payment_row list" where
  "bills st vid = filter (\<lambda>p. p_vehicle_id p = vid) (payments st)"

text \<open>
  The relationship invariants of the data model: the slot of an active session exists and
  is marked occupied; two active sessions never share a slot; a closed session has a
  payment.
\<close>

definition active_slot_occupied :: "db \<Rightarrow> bool" where
  "active_slot_occupied st \<longleftrightarrow>
     (\<forall>v \<in> set (vehicles st). exit_time v = None \<longrightarrow>
        (\<exists>s \<in> set (slots st). slot_id s = v_slot_id v \<and> is_occupied s = 1))"

definition one_active_per_slot :: "db \<Rightarrow> bool" where
  "one_active_per_slot st \<longleftrightarrow>
     (\<forall>v \<in> set (vehicles st). \<forall>v' \<in> set (vehicles st).
        exit_time v = None \<and> exit_time v' = None \<and> v_slot_id v = v_slot_id v' \<longrightarrow> v = v')"

definition closed_has_payment :: "db \<Rightarrow> bool" where
  "closed_has_payment st \<longleftrightarrow>
     (\<forall>v \<in> set (vehicles st). exit_time v \<noteq> None \<longrightarrow>
        (\<exists>p \<in> set (payments st). p_vehicle_id p = vehicle_id v))"

text \<open>
  Two states of a one-slot lot: after \<open>KA01AB1234\<close> has parked at second 1000, and
  after it has left at second 1300.
\<close>

definition lot_parked :: db where
  "lot_parked =
     \<lparr>slots = [\<lparr>slot_id = 1, slot_number = ''Slot-1'', is_occupied = 1\<rparr>],
      vehicles = [\<lparr>vehicle_id = 1, owner_name = ''Asha'', vehicle_number = ''KA01AB1234'',
                   v_slot_id = 1, entry_time = 1000, exit_time = None\<rparr>],
      payments = [], seq_slots = 1, seq_vehicles = 1, seq_payments = 0\<rparr>"

definition lot_returned :: db where
  "lot_returned =
     \<lparr>slots = [\<lparr>slot_id = 1, slot_number = ''Slot-1'', is_occupied = 0\<rparr>],
      vehicles = [\<lparr>vehicle_id = 1, owner_name = ''Asha'', vehicle_number = ''KA01AB1234'',
                   v_slot_id = 1, entry_time = 1000, exit_time = Some 1300\<rparr>],
      payments = [\<lparr>payment_id = 1, p_vehicle_id = 1, amount = 5, payment_time = 1300\<rparr>],
      seq_slots = 1, seq_vehicles = 1, seq_payments = 1\<rparr>"

section \<open>Properties\<close>

subsection \<open>Arithmetic of the bill\<close>

lemma py_int_of_int_div:
  "0 < k \<Longrightarrow> py_int (of_int d / of_int k) = (if 0 \<le> d then d div k else - ((- d) div k))"
proof -
  assume k: "0 < k"
  have fl: "\<And>a. \<lfloor>(of_int a :: rat) / of_int k\<rfloor> = a div k"
    by (simp add: floor_divide_of_int_eq)
  show ?thesis
  proof (cases "0 \<le> d")
    case True
    then have "0 \<le> (of_int d :: rat) / of_int k" using k by simp
    then show ?thesis using True fl by (simp add: py_int_def)
  next
    case False
    then have neg: "(of_int d :: rat) / of_int k < 0" using k by (simp add: divide_neg_pos)
    have "\<lceil>(of_int d :: rat) / of_int k\<rceil> = - \<lfloor>(of_int (- d) :: rat) / of_int k\<rfloor>"
      by (simp add: ceiling_def)
    then show ?thesis using False neg fl [of "- d"] by (simp add: py_int_def)
  qed
qed

lemma billed_minutes_int:
  "billed_minutes now entry =
     max 1 (if 0 \<le> now - entry * 1000000 then (now - entry * 1000000) div 60000000
            else - ((entry * 1000000 - now) div 60000000))"
proof -
  let ?d = "now - entry * 1000000"
  have eq: "total_seconds (now - strptime entry) / 60 = (of_int ?d :: rat) / of_int 60000000"
    by (simp add: total_seconds_def strptime_def)
  have "py_int (total_seconds (now - strptime entry) / 60)
        = (if 0 \<le> ?d then ?d div 60000000 else - ((- ?d) div 60000000))"
    unfolding eq by (rule py_int_of_int_div) simp
  moreover have "- ?d = entry * 1000000 - now" by simp
  ultimately show ?thesis by (simp add: billed_minutes_def Let_def)
qed

lemma billed_minutes_floor:
  assumes "entry \<le> strftime now"
  shows "billed_minutes now entry = max 1 ((strftime now - entry) div 60)"
proof -
  let ?d = "now - entry * 1000000"
  from assms have nn: "0 \<le> ?d" by (simp add: strftime_def)
  have "?d div 60000000 = (?d div 1000000) div 60"
    by (simp add: zdiv_zmult2_eq [symmetric])
  also have "?d div 1000000 = now div 1000000 - entry"
    by simp
  finally show ?thesis using nn by (simp add: billed_minutes_int strftime_def)
qed

lemma spec_minutes_div: "spec_minutes t0 t1 = max 1 ((t1 - t0) div 60)"
proof -
  have "\<lfloor>(of_int (t1 - t0) :: rat) / of_int 60\<rfloor> = (t1 - t0) div 60"
    by (rule floor_divide_of_int_eq)
  then show ?thesis by (simp add: spec_minutes_def)
qed

lemma round_half_even_of_int: "round_half_even (of_int n) = n"
  by (simp add: round_half_even_def)

lemma py_round2_of_int: "py_round2 (of_int n) = of_int n"
proof -
  have "(of_int n :: rat) * 100 = of_int (n * 100)" by simp
  then have "round_half_even (of_int n * 100) = n * 100"
    using round_half_even_of_int [of "n * 100"] by simp
  then show ?thesis by (simp add: py_round2_def)
qed

lemma py_round2_numeral: "py_round2 (numeral k) = numeral k"
  using py_round2_of_int [of "numeral k"] by simp

lemma py_round2_0: "py_round2 0 = 0"
  using py_round2_of_int [of 0] by simp

lemma py_round2_1: "py_round2 1 = 1"
  using py_round2_of_int [of 1] by simp

subsection \<open>Evaluation on concrete states\<close>

lemmas conn_defs = get_connection_def execute_def commit_def close_def

lemmas eval_defs = run_def update_slots_def submit_def submit_exit_def empty_db_def
  conn_defs insert_or_ignore_slot_def new_rowid_def slot_name_def str_int_def
  str_nat.simps digit_char_def upto.simps strip_def is_space_def select_free_slot_def
  insert_vehicle_def update_slot_occupied_def strftime_def Let_def
  select_active_def select_active_rows_def fetchone_def update_exit_time_def
  insert_payment_def billed_minutes_int py_round2_numeral py_round2_0 py_round2_1
  rate_per_min_def free_count_def

lemma lot_parked_reachable:
  "run empty_db [AddSlots (Some 1), Park ''Asha'' ''KA01AB1234'' 1000000000] = lot_parked"
  by (simp add: eval_defs lot_parked_def)

lemma lot_returned_reachable:
  "run lot_parked [ExitVehicle '' KA01AB1234 '' 1300999999] = lot_returned"
  by (simp add: eval_defs lot_parked_def lot_returned_def)

lemma strip_plate: "strip ''KA01AB1234'' = ''KA01AB1234''"
  by (simp add: strip_def is_space_def)

lemma strip_other_plate: "strip ''MH12DE1433'' = ''MH12DE1433''"
  by (simp add: strip_def is_space_def)

subsection \<open>Parking: the four outcomes of \<open>submit\<close>\<close>

lemma has_session_iff:
  "has_session st vnum \<longleftrightarrow> vnum \<in> set (map vehicle_number (vehicles st))"
  by (auto simp add: has_session_def)

lemma active_is_session: "has_active_session st vnum \<Longrightarrow> has_session st vnum"
  by (auto simp add: has_active_session_def has_session_def)

lemma submit_invalid:
  "strip win_number = [] \<Longrightarrow> submit st win_owner win_number now = (Inl ValidationError, st)"
  by (simp add: submit_def)

lemma submit_full:
  "strip win_number \<noteq> [] \<Longrightarrow> select_free_slot st = None \<Longrightarrow>
   submit st win_owner win_number now = (Inl Full, st)"
  by (simp add: submit_def conn_defs)

lemma submit_conflict:
  "strip win_number \<noteq> [] \<Longrightarrow> select_free_slot st = Some row \<Longrightarrow>
   has_session st (strip win_number) \<Longrightarrow>
   submit st win_owner win_number now = (Inl Conflict, st)"
  by (simp add: submit_def conn_defs insert_vehicle_def has_session_iff Let_def)

lemma submit_parked:
  "strip win_number \<noteq> [] \<Longrightarrow> select_free_slot st = Some row \<Longrightarrow>
   \<not> has_session st (strip win_number) \<Longrightarrow>
   submit st win_owner win_number now =
     (Inr (slot_number row),
      st\<lparr>vehicles := vehicles st @
             [parked_row st (strip win_owner) (strip win_number) (slot_id row) now],
         seq_vehicles := new_rowid (seq_vehicles st) (map vehicle_id (vehicles st)),
         slots := map (\<lambda>s. if slot_id s = slot_id row then s\<lparr>is_occupied := 1\<rparr> else s)
                    (slots st)\<rparr>)"
  by (simp add: submit_def conn_defs insert_vehicle_def has_session_iff parked_row_def
      update_slot_occupied_def Let_def)

lemma select_free_slot_None: "select_free_slot st = None \<longleftrightarrow> free_count st = 0"
  by (auto simp add: select_free_slot_def free_count_def find_None_iff filter_empty_conv)

lemma select_free_slot_Some:
  "select_free_slot st = Some row \<Longrightarrow> row \<in> set (slots st) \<and> is_occupied row = 0"
  by (auto simp add: select_free_slot_def find_Some_iff)

lemma free_slot_exists: "0 < free_count st \<Longrightarrow> \<exists>row. select_free_slot st = Some row"
  using select_free_slot_None [of st] by (cases "select_free_slot st") simp_all

lemma map_occupy_other:
  "sid \<notin> slot_id ` set ss \<Longrightarrow>
   map (\<lambda>s. if slot_id s = sid then s\<lparr>is_occupied := occ\<rparr> else s) ss = ss"
  by (induction ss) auto

lemma free_after_occupy:
  "distinct (map slot_id ss) \<Longrightarrow> r \<in> set ss \<Longrightarrow> is_occupied r = 0 \<Longrightarrow>
   Suc (length (filter (\<lambda>s. is_occupied s = 0)
          (map (\<lambda>s. if slot_id s = slot_id r then s\<lparr>is_occupied := 1\<rparr> else s) ss)))
   = length (filter (\<lambda>s. is_occupied s = 0) ss)"
proof (induction ss)
  case Nil
  then show ?case by simp
next
  case (Cons a ss)
  show ?case
  proof (cases "a = r")
    case True
    with Cons.prems have "slot_id r \<notin> slot_id ` set ss" by auto
    then show ?thesis using True Cons.prems by (simp add: map_occupy_other)
  next
    case False
    with Cons.prems have "r \<in> set ss" and "slot_id a \<noteq> slot_id r" by auto
    then show ?thesis using Cons by simp
  qed
qed

text \<open>
  C9. \<open>submit\<close> looks for a free slot before it tries the insert: in a lot with no free
  slot a non-empty vehicle number is answered with \<open>Full\<close>, never with \<open>Conflict\<close>,
  whether or not the number has a session.
\<close>

theorem park_full_before_conflict:
  assumes "strip win_number \<noteq> []" and "free_count st = 0"
  shows "fst (submit st win_owner win_number now) = Inl Full \<and>
         fst (submit st win_owner win_number now) \<noteq> Inl Conflict"
  using assms by (simp add: submit_full select_free_slot_None)

theorem park_full_before_conflict_witness:
  "strip ''KA01AB1234'' \<noteq> [] \<and> free_count lot_parked = 0 \<and>
   has_active_session lot_parked ''KA01AB1234'' \<and>
   fst (submit lot_parked ''Asha'' ''KA01AB1234'' 1060000000) = Inl Full"
proof -
  have 1: "strip ''KA01AB1234'' \<noteq> []" by (simp add: strip_plate)
  have 2: "free_count lot_parked = 0" by (simp add: free_count_def lot_parked_def)
  have 3: "has_active_session lot_parked ''KA01AB1234''"
    by (simp add: has_active_session_def lot_parked_def)
  from park_full_before_conflict [OF 1 2] 1 2 3 show ?thesis by simp
qed

text \<open>
  C10. When \<open>submit\<close> answers \<open>Conflict\<close> the stored database is the one it started
  from: no session row was added, and the free slot it had chosen is still in the table
  with occupancy flag 0.
\<close>

theorem park_conflict_atomic:
  assumes "fst (submit st win_owner win_number now) = Inl Conflict"
  shows "snd (submit st win_owner win_number now) = st \<and>
         (\<exists>row. select_free_slot st = Some row \<and>
                row \<in> set (slots (snd (submit st win_owner win_number now))) \<and>
                is_occupied row = 0)"
proof (cases "strip win_number = []")
  case True
  with assms show ?thesis by (simp add: submit_invalid)
next
  case False
  show ?thesis
  proof (cases "select_free_slot st")
    case None
    with False assms show ?thesis by (simp add: submit_full)
  next
    case (Some row)
    show ?thesis
    proof (cases "has_session st (strip win_number)")
      case True
      with False Some select_free_slot_Some [OF Some] show ?thesis
        by (simp add: submit_conflict)
    next
      case no: False
      with False Some assms show ?thesis by (simp add: submit_parked)
    qed
  qed
qed

theorem park_conflict_atomic_witness:
  "fst (submit lot_returned ''Asha'' ''KA01AB1234'' 1400000000) = Inl Conflict \<and>
   snd (submit lot_returned ''Asha'' ''KA01AB1234'' 1400000000) = lot_returned"
proof -
  have 1: "fst (submit lot_returned ''Asha'' ''KA01AB1234'' 1400000000) = Inl Conflict"
    by (simp add: eval_defs lot_returned_def)
  from park_conflict_atomic [OF 1] 1 show ?thesis by simp
qed

text \<open>
  C3. With a non-empty vehicle number that has no session row, in a database that
  satisfies its key constraints and has a free slot, \<open>submit\<close> succeeds and the count of
  free slots goes down by exactly one. With no free slot, \<open>submit\<close> answers \<open>Full\<close>
  and the database is unchanged.
\<close>

theorem park_takes_one_free_slot:
  assumes "strip win_number \<noteq> []"
  shows "(schema_ok st \<and> 0 < free_count st \<and> \<not> has_session st (strip win_number) \<longrightarrow>
            (\<exists>label. fst (submit st win_owner win_number now) = Inr label) \<and>
            Suc (free_count (snd (submit st win_owner win_number now))) = free_count st) \<and>
         (free_count st = 0 \<longrightarrow> submit st win_owner win_number now = (Inl Full, st))"
proof (intro conjI impI)
  assume "free_count st = 0"
  with assms show "submit st win_owner win_number now = (Inl Full, st)"
    by (simp add: submit_full select_free_slot_None)
next
  assume h: "schema_ok st \<and> 0 < free_count st \<and> \<not> has_session st (strip win_number)"
  then obtain row where row: "select_free_slot st = Some row"
    using free_slot_exists by blast
  from h assms row
  show "\<exists>label. fst (submit st win_owner win_number now) = Inr label"
    by (simp add: submit_parked)
  from h have d: "distinct (map slot_id (slots st))" by (simp add: schema_ok_def)
  from free_after_occupy [OF d] select_free_slot_Some [OF row] h assms row
  show "Suc (free_count (snd (submit st win_owner win_number now))) = free_count st"
    by (simp add: submit_parked free_count_def)
qed

theorem park_takes_one_free_slot_witness:
  "strip ''MH12DE1433'' \<noteq> [] \<and> schema_ok lot_returned \<and> free_count lot_returned = 1 \<and>
   \<not> has_session lot_returned (strip ''MH12DE1433'') \<and>
   fst (submit lot_returned ''Ravi'' ''MH12DE1433'' 1400000000) = Inr ''Slot-1'' \<and>
   free_count (snd (submit lot_returned ''Ravi'' ''MH12DE1433'' 1400000000)) = 0 \<and>
   free_count lot_parked = 0 \<and>
   submit lot_parked ''Ravi'' ''MH12DE1433'' 1400000000 = (Inl Full, lot_parked)"
proof -
  have 1: "strip ''MH12DE1433'' \<noteq> []" by (simp add: strip_other_plate)
  have 2: "schema_ok lot_returned" by (simp add: schema_ok_def lot_returned_def)
  have 3: "free_count lot_returned = 1" by (simp add: free_count_def lot_returned_def)
  have 4: "\<not> has_session lot_returned (strip ''MH12DE1433'')"
    by (simp add: has_session_def lot_returned_def strip_other_plate)
  have 5: "free_count lot_parked = 0" by (simp add: free_count_def lot_parked_def)
  have 6: "fst (submit lot_returned ''Ravi'' ''MH12DE1433'' 1400000000) = Inr ''Slot-1''"
    by (simp add: eval_defs lot_returned_def)
  from park_takes_one_free_slot [OF 1, of lot_returned "''Ravi''" 1400000000]
       park_takes_one_free_slot [OF 1, of lot_parked "''Ravi''" 1400000000]
       1 2 3 4 5 6
  show ?thesis by simp
qed

text \<open>
  C1, as the specification words it, fails: \<open>KA01AB1234\<close> has left the one-slot lot, its
  only session is closed and the slot is free, yet parking it again is answered with
  \<open>Conflict\<close>.
\<close>

theorem park_after_exit_conflict:
  "\<not> has_active_session lot_returned (strip ''KA01AB1234'') \<and>
   0 < free_count lot_returned \<and>
   fst (submit lot_returned ''Asha'' ''KA01AB1234'' 1400000000) = Inl Conflict"
  by (simp add: eval_defs has_active_session_def lot_returned_def)

text \<open>
  C1, amended. For a non-empty vehicle number, \<open>submit\<close> answers \<open>Conflict\<close> exactly
  when a free slot exists and the number already has a session row, active or closed; a
  number with no session row is parked, in the first free slot, whenever a free slot
  exists.
\<close>

theorem park_conflict_iff_known:
  assumes "strip win_number \<noteq> []"
  shows "(fst (submit st win_owner win_number now) = Inl Conflict \<longleftrightarrow>
            0 < free_count st \<and> has_session st (strip win_number)) \<and>
         (0 < free_count st \<and> \<not> has_session st (strip win_number) \<longrightarrow>
            (\<exists>row. select_free_slot st = Some row \<and>
                   fst (submit st win_owner win_number now) = Inr (slot_number row)))"
proof (cases "select_free_slot st")
  case None
  then have "free_count st = 0" by (simp add: select_free_slot_None)
  with None assms show ?thesis by (simp add: submit_full)
next
  case (Some row)
  then have pos: "0 < free_count st"
    using select_free_slot_None [of st] by simp
  show ?thesis
  proof (cases "has_session st (strip win_number)")
    case True
    with Some assms pos show ?thesis by (simp add: submit_conflict)
  next
    case False
    with Some assms pos show ?thesis by (simp add: submit_parked)
  qed
qed

theorem park_conflict_iff_known_witness:
  "strip ''KA01AB1234'' \<noteq> [] \<and> 0 < free_count lot_returned \<and>
   has_session lot_returned (strip ''KA01AB1234'') \<and>
   fst (submit lot_returned ''Asha'' ''KA01AB1234'' 1400000000) = Inl Conflict \<and>
   strip ''MH12DE1433'' \<noteq> [] \<and> \<not> has_session lot_returned (strip ''MH12DE1433'') \<and>
   fst (submit lot_returned ''Ravi'' ''MH12DE1433'' 1400000000) = Inr ''Slot-1''"
proof -
  have 1: "strip ''KA01AB1234'' \<noteq> []" by (simp add: strip_plate)
  have 2: "0 < free_count lot_returned" by (simp add: free_count_def lot_returned_def)
  have 3: "has_session lot_returned (strip ''KA01AB1234'')"
    by (simp add: has_session_def lot_returned_def strip_plate)
  have 4: "strip ''MH12DE1433'' \<noteq> []" by (simp add: strip_other_plate)
  have 5: "\<not> has_session lot_returned (strip ''MH12DE1433'')"
    by (simp add: has_session_def lot_returned_def strip_other_plate)
  have 6: "select_free_slot lot_returned
           = Some \<lparr>slot_id = 1, slot_number = ''Slot-1'', is_occupied = 0\<rparr>"
    by (simp add: select_free_slot_def lot_returned_def)
  from park_conflict_iff_known [OF 1, of lot_returned "''Asha''" 1400000000]
       park_conflict_iff_known [OF 4, of lot_returned "''Ravi''" 1400000000]
       1 2 3 4 5 6
  show ?thesis by simp
qed

subsection \<open>Leaving: the outcomes of \<open>submit_exit\<close>\<close>

lemma set_select_active_rows:
  "set (select_active_rows vnum st) =
     {(v, s). v \<in> set (vehicles st) \<and> s \<in> set (slots st) \<and> v_slot_id v = slot_id s \<and>
              vehicle_number v = vnum \<and> exit_time v = None}"
  by (auto simp add: select_active_rows_def split: if_splits)

lemma fetchone_Some: "fetchone rows = Some r \<Longrightarrow> r \<in> set rows"
  by (cases rows) (simp_all add: fetchone_def)

lemma fetchone_None: "fetchone rows = None \<longleftrightarrow> set rows = {}"
  by (cases rows) (simp_all add: fetchone_def)

lemma select_active_Some:
  "select_active vnum st = Some (v, s) \<Longrightarrow>
   v \<in> set (vehicles st) \<and> s \<in> set (slots st) \<and> v_slot_id v = slot_id s \<and>
   vehicle_number v = vnum \<and> exit_time v = None"
  using fetchone_Some [of "select_active_rows vnum st" "(v, s)"]
  by (simp add: select_active_def set_select_active_rows)

lemma select_active_None:
  "\<not> has_active_session st vnum \<Longrightarrow> select_active vnum st = None"
  by (auto simp add: select_active_def fetchone_None set_select_active_rows
      has_active_session_def)

lemma submit_exit_invalid:
  "strip win_number = [] \<Longrightarrow> submit_exit st win_number now = (Inl ValidationError, st)"
  by (simp add: submit_exit_def)

lemma submit_exit_not_found:
  "strip win_number \<noteq> [] \<Longrightarrow> select_active (strip win_number) st = None \<Longrightarrow>
   submit_exit st win_number now = (Inl NotFound, st)"
  by (simp add: submit_exit_def conn_defs)

lemma submit_exit_found:
  assumes "strip win_number \<noteq> []" and "select_active (strip win_number) st = Some (v, s)"
  shows "submit_exit st win_number now =
     (Inr (slot_number s, billed_minutes now (entry_time v),
           py_round2 (of_int (billed_minutes now (entry_time v)) * rate_per_min)),
      st\<lparr>vehicles := map (\<lambda>x. if vehicle_id x = vehicle_id v
                                 then x\<lparr>exit_time := Some (strftime now)\<rparr> else x)
                         (vehicles st),
         slots := map (\<lambda>x. if slot_id x = v_slot_id v then x\<lparr>is_occupied := 0\<rparr> else x)
                    (slots st),
         payments := payments st @
            [\<lparr>payment_id = new_rowid (seq_payments st) (map payment_id (payments st)),
              p_vehicle_id = vehicle_id v,
              amount = py_round2 (of_int (billed_minutes now (entry_time v)) * rate_per_min),
              payment_time = strftime now\<rparr>],
         seq_payments := new_rowid (seq_payments st) (map payment_id (payments st))\<rparr>)"
  using assms
  by (simp add: submit_exit_def conn_defs update_exit_time_def update_slot_occupied_def
      insert_payment_def Let_def)

text \<open>
  C7. For a non-empty vehicle number with no active session, \<open>submit_exit\<close> answers
  \<open>NotFound\<close> and the database (sessions, slots and payments) is the one it started
  from.
\<close>

theorem exit_unknown_not_found:
  assumes "strip win_number \<noteq> []" and "\<not> has_active_session st (strip win_number)"
  shows "submit_exit st win_number now = (Inl NotFound, st)"
  using assms by (simp add: submit_exit_not_found select_active_None)

theorem exit_unknown_not_found_witness:
  "strip ''KA01AB1234'' \<noteq> [] \<and> \<not> has_active_session lot_returned (strip ''KA01AB1234'') \<and>
   submit_exit lot_returned ''KA01AB1234'' 1500000000 = (Inl NotFound, lot_returned) \<and>
   strip ''MH12DE1433'' \<noteq> [] \<and> \<not> has_active_session lot_parked (strip ''MH12DE1433'') \<and>
   submit_exit lot_parked ''MH12DE1433'' 1500000000 = (Inl NotFound, lot_parked)"
proof -
  have 1: "strip ''KA01AB1234'' \<noteq> []" by (simp add: strip_plate)
  have 2: "\<not> has_active_session lot_returned (strip ''KA01AB1234'')"
    by (simp add: has_active_session_def lot_returned_def)
  have 3: "strip ''MH12DE1433'' \<noteq> []" by (simp add: strip_other_plate)
  have 4: "\<not> has_active_session lot_parked (strip ''MH12DE1433'')"
    by (simp add: has_active_session_def lot_parked_def strip_other_plate)
  from exit_unknown_not_found [OF 1 2, of 1500000000]
       exit_unknown_not_found [OF 3 4, of 1500000000] 1 2 3 4
  show ?thesis by simp
qed

text \<open>
  C2. When \<open>submit_exit\<close> closes the session that entered at \<open>t0\<close>, the exit time it
  stores is \<open>t1 = strftime now\<close>; if \<open>t0 \<le> t1\<close>, the minutes shown are
  \<open>max(1, floor((t1 - t0) / 60))\<close>, the amount shown and the amount of the payment row
  written are \<open>round(minutes * 1.0, 2)\<close>, which is the number of minutes itself: the fee
  depends on \<open>t1 - t0\<close> only.
\<close>

theorem exit_bills_floor_minutes:
  assumes "strip win_number \<noteq> []"
    and "select_active (strip win_number) st = Some (v, s)"
    and "entry_time v \<le> strftime now"
  shows "fst (submit_exit st win_number now) =
           Inr (slot_number s, spec_minutes (entry_time v) (strftime now),
                spec_fee (spec_minutes (entry_time v) (strftime now))) \<and>
         map amount (payments (snd (submit_exit st win_number now))) =
           map amount (payments st) @ [spec_fee (spec_minutes (entry_time v) (strftime now))] \<and>
         v\<lparr>exit_time := Some (strftime now)\<rparr> \<in> set (vehicles (snd (submit_exit st win_number now))) \<and>
         spec_fee (spec_minutes (entry_time v) (strftime now)) =
           of_int (spec_minutes (entry_time v) (strftime now))"
proof -
  have m: "billed_minutes now (entry_time v) = spec_minutes (entry_time v) (strftime now)"
    using assms(3) by (simp add: billed_minutes_floor spec_minutes_div)
  have f: "spec_fee (spec_minutes (entry_time v) (strftime now)) =
           of_int (spec_minutes (entry_time v) (strftime now))"
    by (simp add: spec_fee_def py_round2_of_int)
  have a: "py_round2 (of_int (spec_minutes (entry_time v) (strftime now)) * rate_per_min) =
           spec_fee (spec_minutes (entry_time v) (strftime now))"
    by (simp add: spec_fee_def rate_per_min_def)
  have "v \<in> set (vehicles st)"
    using select_active_Some [OF assms(2)] by simp
  then have c: "v\<lparr>exit_time := Some (strftime now)\<rparr> \<in>
           set (map (\<lambda>x. if vehicle_id x = vehicle_id v
                          then x\<lparr>exit_time := Some (strftime now)\<rparr> else x) (vehicles st))"
    by force
  show ?thesis
    using c by (simp add: submit_exit_found [OF assms(1,2)] m a f)
qed

theorem exit_bills_floor_minutes_witness:
  "strip '' KA01AB1234 '' \<noteq> [] \<and>
   select_active (strip '' KA01AB1234 '') lot_parked =
     Some (\<lparr>vehicle_id = 1, owner_name = ''Asha'', vehicle_number = ''KA01AB1234'',
            v_slot_id = 1, entry_time = 1000, exit_time = None\<rparr>,
           \<lparr>slot_id = 1, slot_number = ''Slot-1'', is_occupied = 1\<rparr>) \<and>
   (1000::int) \<le> strftime 1300999999 \<and>
   spec_minutes 1000 (strftime 1300999999) = 5 \<and>
   fst (submit_exit lot_parked '' KA01AB1234 '' 1300999999) = Inr (''Slot-1'', 5, 5)"
proof -
  have 0: "strip '' KA01AB1234 '' = ''KA01AB1234''" by (simp add: strip_def is_space_def)
  have 1: "strip '' KA01AB1234 '' \<noteq> []" by (simp add: 0)
  have 2: "select_active (strip '' KA01AB1234 '') lot_parked =
     Some (\<lparr>vehicle_id = 1, owner_name = ''Asha'', vehicle_number = ''KA01AB1234'',
            v_slot_id = 1, entry_time = 1000, exit_time = None\<rparr>,
           \<lparr>slot_id = 1, slot_number = ''Slot-1'', is_occupied = 1\<rparr>)"
    by (simp add: 0 select_active_def select_active_rows_def fetchone_def lot_parked_def)
  have 3: "entry_time \<lparr>vehicle_id = 1, owner_name = ''Asha'', vehicle_number = ''KA01AB1234'',
            v_slot_id = 1, entry_time = 1000, exit_time = None\<rparr> \<le> strftime 1300999999"
    by (simp add: strftime_def)
  have 4: "spec_minutes 1000 (strftime 1300999999) = 5"
    by (simp add: spec_minutes_div strftime_def)
  from exit_bills_floor_minutes [OF 1 2 3] 1 2 3 4
  show ?thesis by simp
qed

subsection \<open>Revenue\<close>

text \<open>
  C6. The total shown by \<open>payments_window\<close> is the sum of the amounts of all payment
  rows, rounded to two decimals; with no payment row it is 0.
\<close>

theorem total_revenue_is_rounded_sum:
  "total_revenue st = py_round2 (sum_list (map amount (payments st))) \<and>
   (payments st = [] \<longrightarrow> total_revenue st = 0)"
  by (simp add: total_revenue_def sql_sum_def coalesce_def py_round2_0)

theorem total_revenue_is_rounded_sum_witness:
  "payments empty_db = [] \<and> total_revenue empty_db = 0 \<and> total_revenue lot_returned = 5"
proof -
  have 1: "payments empty_db = []" by (simp add: empty_db_def)
  have 2: "map amount (payments lot_returned) = [5]" by (simp add: lot_returned_def)
  from total_revenue_is_rounded_sum [of empty_db] total_revenue_is_rounded_sum [of lot_returned]
       1 2
  show ?thesis by (simp add: py_round2_numeral)
qed

subsection \<open>Keys drawn by \<open>AUTOINCREMENT\<close>\<close>

lemma fold_max_ge_init: "s \<le> fold max ids (s::nat)"
proof (induction ids arbitrary: s)
  case Nil
  show ?case by simp
next
  case (Cons a ids)
  have "s \<le> max a s" by simp
  also have "\<dots> \<le> fold max ids (max a s)" by (rule Cons.IH)
  finally show ?case by simp
qed

lemma fold_max_ge_elem: "x \<in> set ids \<Longrightarrow> x \<le> fold max ids (s::nat)"
proof (induction ids arbitrary: s)
  case Nil
  then show ?case by simp
next
  case (Cons a ids)
  show ?case
  proof (cases "x = a")
    case True
    have "a \<le> max a s" by simp
    also have "\<dots> \<le> fold max ids (max a s)" by (rule fold_max_ge_init)
    finally show ?thesis using True by simp
  next
    case False
    with Cons.prems have "x \<in> set ids" by simp
    then show ?thesis using Cons.IH by simp
  qed
qed

lemma new_rowid_fresh: "new_rowid seq ids \<notin> set ids"
proof
  assume "new_rowid seq ids \<in> set ids"
  then have "new_rowid seq ids \<le> fold max ids seq" by (rule fold_max_ge_elem)
  then show False by (simp add: new_rowid_def)
qed

subsection \<open>Decimal labels\<close>

lemma str_nat_small: "n < 10 \<Longrightarrow> str_nat n = [digit_char n]"
  by (simp add: str_nat.simps)

lemma str_nat_large:
  "\<not> n < 10 \<Longrightarrow> str_nat n = str_nat (n div 10) @ [digit_char (n mod 10)]"
  by (subst str_nat.simps) simp

lemma str_nat_not_Nil: "str_nat n \<noteq> []"
  by (cases "n < 10") (simp_all add: str_nat_small str_nat_large)

lemma digit_cases:
  "d < 10 \<Longrightarrow> d = 0 \<or> d = 1 \<or> d = 2 \<or> d = 3 \<or> d = 4 \<or> d = 5 \<or> d = 6 \<or> d = 7 \<or> d = 8 \<or>
     d = (9::nat)"
  by arith

lemma digit_char_inj:
  assumes "a < 10" and "b < 10" and "digit_char a = digit_char b"
  shows "a = b"
  using digit_cases [OF assms(1)] digit_cases [OF assms(2)] assms(3)
  by (auto simp add: digit_char_def)

lemma str_nat_inj: "str_nat n = str_nat m \<Longrightarrow> n = m"
proof (induction n arbitrary: m rule: str_nat.induct)
  case (1 n)
  show ?case
  proof (cases "n < 10")
    case small: True
    show ?thesis
    proof (cases "m < 10")
      case True
      with small "1.prems" show ?thesis
        by (simp add: str_nat_small digit_char_inj)
    next
      case False
      with small "1.prems" str_nat_not_Nil [of "m div 10"] show ?thesis
        by (simp add: str_nat_small str_nat_large)
    qed
  next
    case large: False
    show ?thesis
    proof (cases "m < 10")
      case True
      with large "1.prems" str_nat_not_Nil [of "n div 10"] show ?thesis
        by (simp add: str_nat_small str_nat_large)
    next
      case False
      with large "1.prems"
      have e: "str_nat (n div 10) = str_nat (m div 10)"
        and d: "digit_char (n mod 10) = digit_char (m mod 10)"
        by (simp_all add: str_nat_large)
      from "1.IH" [OF large e] have q: "n div 10 = m div 10" .
      have r: "n mod 10 = m mod 10"
        by (rule digit_char_inj [OF _ _ d]) simp_all
      have "n = 10 * (n div 10) + n mod 10" by simp
      also have "\<dots> = 10 * (m div 10) + m mod 10" by (simp only: q r)
      also have "\<dots> = m" by simp
      finally show ?thesis .
    qed
  qed
qed

lemma slot_name_inj: "0 \<le> i \<Longrightarrow> 0 \<le> j \<Longrightarrow> slot_name i = slot_name j \<Longrightarrow> i = j"
proof -
  assume i: "0 \<le> i" and j: "0 \<le> j" and e: "slot_name i = slot_name j"
  then have "str_nat (nat i) = str_nat (nat j)" by (simp add: slot_name_def str_int_def)
  then have "nat i = nat j" by (rule str_nat_inj)
  with i j show ?thesis by simp
qed

lemma slot_name_inj_on: "inj_on slot_name {1..n}"
  by (rule inj_onI) (simp add: slot_name_inj)

subsection \<open>Provisioning slots\<close>

lemma insert_or_ignore_slot_slots:
  "slots (insert_or_ignore_slot name w) =
     (if name \<in> set (map slot_number (slots w)) then slots w
      else slots w @ [\<lparr>slot_id = new_rowid (seq_slots w) (map slot_id (slots w)),
                       slot_number = name, is_occupied = 0\<rparr>])"
  by (simp add: insert_or_ignore_slot_def Let_def)

lemma insert_or_ignore_slot_others:
  "vehicles (insert_or_ignore_slot name w) = vehicles w \<and>
   payments (insert_or_ignore_slot name w) = payments w \<and>
   seq_vehicles (insert_or_ignore_slot name w) = seq_vehicles w \<and>
   seq_payments (insert_or_ignore_slot name w) = seq_payments w"
  by (simp add: insert_or_ignore_slot_def Let_def)

lemma fold_execute:
  "fold (\<lambda>i. execute (f i)) xs conn = conn\<lparr>working := fold f xs (working conn)\<rparr>"
  by (induction xs arbitrary: conn) (simp_all add: execute_def)

lemma update_slots_run:
  "0 < n \<Longrightarrow>
   update_slots st (Some n) =
     (Inr (length (slots (fold (\<lambda>i. insert_or_ignore_slot (slot_name i)) [1..n] st))),
      fold (\<lambda>i. insert_or_ignore_slot (slot_name i)) [1..n] st)"
  by (simp add: update_slots_def fold_execute conn_defs Let_def)

lemma provision_others:
  "vehicles (fold (\<lambda>i. insert_or_ignore_slot (f i)) xs w) = vehicles w \<and>
   payments (fold (\<lambda>i. insert_or_ignore_slot (f i)) xs w) = payments w \<and>
   seq_vehicles (fold (\<lambda>i. insert_or_ignore_slot (f i)) xs w) = seq_vehicles w \<and>
   seq_payments (fold (\<lambda>i. insert_or_ignore_slot (f i)) xs w) = seq_payments w"
  by (induction xs arbitrary: w) (simp_all add: insert_or_ignore_slot_others)

lemma provision_labels:
  "set (map slot_number (slots (fold (\<lambda>i. insert_or_ignore_slot (f i)) xs w))) =
     set (map slot_number (slots w)) \<union> f ` set xs"
  by (induction xs arbitrary: w) (auto simp add: insert_or_ignore_slot_slots)

lemma provision_appends:
  "\<exists>news. slots (fold (\<lambda>i. insert_or_ignore_slot (f i)) xs w) = slots w @ news \<and>
          (\<forall>r \<in> set news. is_occupied r = 0 \<and>
                           slot_number r \<notin> set (map slot_number (slots w)))"
proof (induction xs arbitrary: w)
  case Nil
  show ?case by simp
next
  case (Cons x xs)
  let ?w = "insert_or_ignore_slot (f x) w"
  from Cons.IH [of ?w] obtain news where
    n1: "slots (fold (\<lambda>i. insert_or_ignore_slot (f i)) xs ?w) = slots ?w @ news" and
    n2: "\<forall>r \<in> set news. is_occupied r = 0 \<and> slot_number r \<notin> set (map slot_number (slots ?w))"
    by blast
  show ?case
  proof (cases "f x \<in> set (map slot_number (slots w))")
    case True
    then have "slots ?w = slots w" by (simp add: insert_or_ignore_slot_slots)
    with n1 n2 show ?thesis by auto
  next
    case False
    let ?r = "\<lparr>slot_id = new_rowid (seq_slots w) (map slot_id (slots w)),
               slot_number = f x, is_occupied = 0\<rparr>"
    from False have e: "slots ?w = slots w @ [?r]" by (simp add: insert_or_ignore_slot_slots)
    have "slots (fold (\<lambda>i. insert_or_ignore_slot (f i)) (x # xs) w) = slots w @ (?r # news)"
      using n1 e by simp
    moreover have "\<forall>r \<in> set (?r # news). is_occupied r = 0 \<and>
                     slot_number r \<notin> set (map slot_number (slots w))"
      using n2 e False by auto
    ultimately show ?thesis by blast
  qed
qed

lemma provision_present:
  "f ` set xs \<subseteq> set (map slot_number (slots w)) \<Longrightarrow>
   slots (fold (\<lambda>i. insert_or_ignore_slot (f i)) xs w) = slots w"
  by (induction xs arbitrary: w) (simp_all add: insert_or_ignore_slot_slots)

lemma insert_or_ignore_slot_distinct:
  assumes "distinct (map slot_id (slots w))" and "distinct (map slot_number (slots w))"
  shows "distinct (map slot_id (slots (insert_or_ignore_slot name w))) \<and>
         distinct (map slot_number (slots (insert_or_ignore_slot name w)))"
  using assms new_rowid_fresh [of "seq_slots w" "map slot_id (slots w)"]
  by (simp add: insert_or_ignore_slot_slots)

lemma provision_distinct:
  "distinct (map slot_id (slots w)) \<Longrightarrow> distinct (map slot_number (slots w)) \<Longrightarrow>
   distinct (map slot_id (slots (fold (\<lambda>i. insert_or_ignore_slot (f i)) xs w))) \<and>
   distinct (map slot_number (slots (fold (\<lambda>i. insert_or_ignore_slot (f i)) xs w)))"
proof (induction xs arbitrary: w)
  case Nil
  then show ?case by simp
next
  case (Cons x xs)
  from insert_or_ignore_slot_distinct [OF Cons.prems, of "f x"] Cons.IH
  show ?case by simp
qed

lemma provision_count:
  assumes "distinct (map slot_number (slots w))" and "distinct (map slot_id (slots w))"
  shows "length (slots (fold (\<lambda>i. insert_or_ignore_slot (f i)) xs w)) =
         card (set (map slot_number (slots w)) \<union> f ` set xs)"
proof -
  let ?w = "fold (\<lambda>i. insert_or_ignore_slot (f i)) xs w"
  have "distinct (map slot_number (slots ?w))"
    using provision_distinct [OF assms(2) assms(1), where f = f and xs = xs] by simp
  then have "card (set (map slot_number (slots ?w))) = length (map slot_number (slots ?w))"
    by (rule distinct_card)
  then have "length (slots ?w) = card (set (map slot_number (slots ?w)))" by simp
  then show ?thesis by (simp only: provision_labels)
qed

text \<open>
  C4. \<open>update_slots\<close> with a positive total \<open>n\<close> keeps every row the \<open>slots\<close> table had,
  in place and with its occupancy flag; the rows it adds are free and carry labels that
  were absent; the labels afterwards are the earlier ones together with
  \<open>Slot-1\<close> to \<open>Slot-n\<close>, each once when they were distinct before; sessions and
  payments are untouched; a second run with the same total leaves the table as the first
  left it; and on an empty table the run leaves exactly \<open>n\<close> rows, once or twice.
\<close>

theorem provision_idempotent_on_labels:
  assumes "0 < n"
  shows "take (length (slots st)) (slots (snd (update_slots st (Some n)))) = slots st \<and>
         (\<forall>r \<in> set (drop (length (slots st)) (slots (snd (update_slots st (Some n))))).
             is_occupied r = 0 \<and> slot_number r \<notin> set (map slot_number (slots st))) \<and>
         set (map slot_number (slots (snd (update_slots st (Some n))))) =
           set (map slot_number (slots st)) \<union> slot_name ` {1..n} \<and>
         (schema_ok st \<longrightarrow> schema_ok (snd (update_slots st (Some n)))) \<and>
         vehicles (snd (update_slots st (Some n))) = vehicles st \<and>
         payments (snd (update_slots st (Some n))) = payments st \<and>
         slots (snd (update_slots (snd (update_slots st (Some n))) (Some n))) =
           slots (snd (update_slots st (Some n))) \<and>
         (slots st = [] \<longrightarrow>
            fst (update_slots st (Some n)) = Inr (nat n) \<and>
            fst (update_slots (snd (update_slots st (Some n))) (Some n)) = Inr (nat n))"
proof -
  let ?st' = "fold (\<lambda>i. insert_or_ignore_slot (slot_name i)) [1..n] st"
  have run1: "update_slots st (Some n) = (Inr (length (slots ?st')), ?st')"
    using assms by (rule update_slots_run)
  have run2: "update_slots ?st' (Some n) =
       (Inr (length (slots (fold (\<lambda>i. insert_or_ignore_slot (slot_name i)) [1..n] ?st'))),
        fold (\<lambda>i. insert_or_ignore_slot (slot_name i)) [1..n] ?st')"
    using assms by (rule update_slots_run)
  from provision_appends [of slot_name "[1..n]" st] obtain news where
    n1: "slots ?st' = slots st @ news" and
    n2: "\<forall>r \<in> set news. is_occupied r = 0 \<and> slot_number r \<notin> set (map slot_number (slots st))"
    by blast
  have labels: "set (map slot_number (slots ?st')) =
                  set (map slot_number (slots st)) \<union> slot_name ` {1..n}"
    using provision_labels [of slot_name "[1..n]" st] by simp
  have again: "slots (fold (\<lambda>i. insert_or_ignore_slot (slot_name i)) [1..n] ?st') = slots ?st'"
    by (rule provision_present) (use labels in auto)
  have schema: "schema_ok st \<longrightarrow> schema_ok ?st'"
    using provision_distinct [of st slot_name "[1..n]"] provision_others [of slot_name "[1..n]" st]
    by (simp add: schema_ok_def)
  have count: "slots st = [] \<longrightarrow> length (slots ?st') = nat n"
  proof
    assume e: "slots st = []"
    then have "length (slots ?st') = card (slot_name ` {1..n})"
      using provision_count [of st slot_name "[1..n]"] by simp
    also have "\<dots> = card {1..n}" by (rule card_image) (rule slot_name_inj_on)
    finally show "length (slots ?st') = nat n" by simp
  qed
  have p1: "take (length (slots st)) (slots ?st') = slots st" by (simp add: n1)
  have p2: "\<forall>r \<in> set (drop (length (slots st)) (slots ?st')).
              is_occupied r = 0 \<and> slot_number r \<notin> set (map slot_number (slots st))"
    using n2 by (simp add: n1)
  show ?thesis
    unfolding run1 run2 snd_conv fst_conv again
    using p1 p2 labels schema count provision_others [of slot_name "[1..n]" st]
    by simp
qed

theorem provision_idempotent_on_labels_witness:
  "(0::int) < 2 \<and> schema_ok lot_parked \<and>
   slots (snd (update_slots lot_parked (Some 2))) =
     slots lot_parked @ [\<lparr>slot_id = 3, slot_number = ''Slot-2'', is_occupied = 0\<rparr>] \<and>
   schema_ok (snd (update_slots lot_parked (Some 2))) \<and>
   slots (snd (update_slots (snd (update_slots lot_parked (Some 2))) (Some 2))) =
     slots lot_parked @ [\<lparr>slot_id = 3, slot_number = ''Slot-2'', is_occupied = 0\<rparr>] \<and>
   slots empty_db = [] \<and>
   fst (update_slots (snd (update_slots empty_db (Some 2))) (Some 2)) = Inr 2"
proof -
  have 1: "(0::int) < 2" by simp
  have 2: "schema_ok lot_parked" by (simp add: schema_ok_def lot_parked_def)
  have 3: "slots (snd (update_slots lot_parked (Some 2))) =
     slots lot_parked @ [\<lparr>slot_id = 3, slot_number = ''Slot-2'', is_occupied = 0\<rparr>]"
    by (simp add: eval_defs lot_parked_def)
  have 4: "slots empty_db = []" by (simp add: empty_db_def)
  from provision_idempotent_on_labels [OF 1, of lot_parked]
       provision_idempotent_on_labels [OF 1, of empty_db] 1 2 3 4
  show ?thesis by simp
qed

subsection \<open>The key constraints are kept by every operation\<close>

lemma map_occupy_keys:
  "map (slot_id \<circ> (\<lambda>s. if slot_id s = sid then s\<lparr>is_occupied := occ\<rparr> else s)) ss
     = map slot_id ss \<and>
   map (slot_number \<circ> (\<lambda>s. if slot_id s = sid then s\<lparr>is_occupied := occ\<rparr> else s)) ss
     = map slot_number ss"
  by (induction ss) simp_all

lemma map_close_keys:
  "map (vehicle_id \<circ> (\<lambda>x. if vehicle_id x = vid then x\<lparr>exit_time := t\<rparr> else x)) vs
     = map vehicle_id vs \<and>
   map (vehicle_number \<circ> (\<lambda>x. if vehicle_id x = vid then x\<lparr>exit_time := t\<rparr> else x)) vs
     = map vehicle_number vs"
  by (induction vs) simp_all

lemma schema_ok_submit:
  assumes "schema_ok st"
  shows "schema_ok (snd (submit st win_owner win_number now))"
proof (cases "strip win_number = []")
  case True
  with assms show ?thesis by (simp add: submit_invalid)
next
  case False
  show ?thesis
  proof (cases "select_free_slot st")
    case None
    with False assms show ?thesis by (simp add: submit_full)
  next
    case (Some row)
    show ?thesis
    proof (cases "has_session st (strip win_number)")
      case True
      with False Some assms show ?thesis by (simp add: submit_conflict)
    next
      case fresh: False
      from fresh have "strip win_number \<notin> set (map vehicle_number (vehicles st))"
        by (simp add: has_session_iff)
      with assms new_rowid_fresh [of "seq_vehicles st" "map vehicle_id (vehicles st)"]
      show ?thesis
        by (simp add: submit_parked [OF False Some fresh] schema_ok_def map_occupy_keys
            parked_row_def)
    qed
  qed
qed

lemma schema_ok_submit_exit:
  assumes "schema_ok st"
  shows "schema_ok (snd (submit_exit st win_number now))"
proof (cases "strip win_number = []")
  case True
  with assms show ?thesis by (simp add: submit_exit_invalid)
next
  case False
  show ?thesis
  proof (cases "select_active (strip win_number) st")
    case None
    with False assms show ?thesis by (simp add: submit_exit_not_found)
  next
    case (Some r)
    obtain v s where r: "r = (v, s)" by (cases r)
    from assms new_rowid_fresh [of "seq_payments st" "map payment_id (payments st)"]
    show ?thesis
      by (simp add: submit_exit_found [OF False Some [unfolded r]] schema_ok_def
          map_occupy_keys map_close_keys)
  qed
qed

lemma update_slots_rejected:
  "parsed = None \<or> (\<exists>n. parsed = Some n \<and> n \<le> 0) \<Longrightarrow>
   update_slots st parsed = (Inl ValidationError, st)"
  by (auto simp add: update_slots_def)

lemma schema_ok_update_slots:
  assumes "schema_ok st"
  shows "schema_ok (snd (update_slots st parsed))"
proof (cases "\<exists>n. parsed = Some n \<and> 0 < n")
  case True
  then obtain n where n: "parsed = Some n" "0 < n" by blast
  from assms have "distinct (map slot_id (slots st))" "distinct (map slot_number (slots st))"
    by (simp_all add: schema_ok_def)
  from provision_distinct [OF this, of slot_name "[1..n]"]
       provision_others [of slot_name "[1..n]" st] assms
  show ?thesis by (simp add: n update_slots_run schema_ok_def)
next
  case False
  then have "parsed = None \<or> (\<exists>n. parsed = Some n \<and> n \<le> 0)"
    by (cases parsed) auto
  with assms show ?thesis by (simp add: update_slots_rejected)
qed

lemma schema_ok_step: "schema_ok st \<Longrightarrow> schema_ok (step st x)"
  by (cases x) (simp_all add: schema_ok_submit schema_ok_submit_exit schema_ok_update_slots)

lemma schema_ok_run: "schema_ok st \<Longrightarrow> schema_ok (run st ops)"
  unfolding run_def by (induction ops arbitrary: st) (simp_all add: schema_ok_step)

lemma schema_ok_empty: "schema_ok empty_db"
  by (simp add: schema_ok_def empty_db_def)

lemma distinct_key_eq:
  "distinct (map f xs) \<Longrightarrow> x \<in> set xs \<Longrightarrow> y \<in> set xs \<Longrightarrow> f x = f y \<Longrightarrow> x = y"
  by (meson distinct_map inj_onD)

subsection \<open>The relationship invariants are kept by every operation\<close>

lemma occupy_member:
  "s \<in> set ss \<Longrightarrow>
   (if slot_id s = sid then s\<lparr>is_occupied := occ\<rparr> else s)
     \<in> set (map (\<lambda>s. if slot_id s = sid then s\<lparr>is_occupied := occ\<rparr> else s) ss)"
  by (rule imageI [of s "set ss", folded set_map])

lemma inv_parked:
  assumes schema: "schema_ok st"
    and occ: "active_slot_occupied st"
    and one: "one_active_per_slot st"
    and pay: "closed_has_payment st"
    and row: "select_free_slot st = Some row"
    and st': "st' = st\<lparr>vehicles := vehicles st @ [parked_row st owner vnum (slot_id row) now],
                  seq_vehicles := k,
                  slots := map (\<lambda>s. if slot_id s = slot_id row then s\<lparr>is_occupied := 1\<rparr> else s)
                             (slots st)\<rparr>"
  shows "active_slot_occupied st' \<and> one_active_per_slot st' \<and> closed_has_payment st'"
proof -
  let ?new = "parked_row st owner vnum (slot_id row) now"
  let ?occ = "\<lambda>s. if slot_id s = slot_id row then s\<lparr>is_occupied := 1\<rparr> else s"
  have new: "exit_time ?new = None" "v_slot_id ?new = slot_id row"
    by (simp_all add: parked_row_def)
  from select_free_slot_Some [OF row] have rin: "row \<in> set (slots st)" and
    rfree: "is_occupied row = 0" by simp_all
  from schema have ds: "distinct (map slot_id (slots st))" by (simp add: schema_ok_def)
  have vs: "vehicles st' = vehicles st @ [?new]" and ss: "slots st' = map ?occ (slots st)"
    and ps: "payments st' = payments st"
    by (simp_all add: st')
  have old_other: "v_slot_id v \<noteq> slot_id row"
    if v: "v \<in> set (vehicles st)" "exit_time v = None" for v
  proof
    assume e: "v_slot_id v = slot_id row"
    from occ v obtain s where s: "s \<in> set (slots st)" "slot_id s = v_slot_id v"
      "is_occupied s = 1"
      by (auto simp add: active_slot_occupied_def)
    from distinct_key_eq [OF ds s(1) rin] s(2) e have "s = row" by simp
    with s(3) rfree show False by simp
  qed
  have a: "active_slot_occupied st'"
    unfolding active_slot_occupied_def
  proof (intro ballI impI)
    fix v assume v: "v \<in> set (vehicles st')" and act: "exit_time v = None"
    show "\<exists>s \<in> set (slots st'). slot_id s = v_slot_id v \<and> is_occupied s = 1"
    proof (cases "v = ?new")
      case True
      from occupy_member [OF rin, of "slot_id row" 1]
      have "row\<lparr>is_occupied := 1\<rparr> \<in> set (slots st')" by (simp add: ss)
      moreover have "slot_id (row\<lparr>is_occupied := 1\<rparr>) = v_slot_id v \<and>
                     is_occupied (row\<lparr>is_occupied := 1\<rparr>) = 1"
        using True new by simp
      ultimately show ?thesis by blast
    next
      case False
      with v have vin: "v \<in> set (vehicles st)" by (simp add: vs)
      from occ vin act obtain s where s: "s \<in> set (slots st)" "slot_id s = v_slot_id v"
        "is_occupied s = 1"
        by (auto simp add: active_slot_occupied_def)
      from occupy_member [OF s(1), of "slot_id row" 1]
      have "?occ s \<in> set (slots st')" by (simp add: ss)
      moreover have "slot_id (?occ s) = v_slot_id v \<and> is_occupied (?occ s) = 1"
        using s by simp
      ultimately show ?thesis by blast
    qed
  qed
  have b: "one_active_per_slot st'"
    unfolding one_active_per_slot_def
  proof (intro ballI impI)
    fix v v' assume v: "v \<in> set (vehicles st')" and v': "v' \<in> set (vehicles st')"
      and h: "exit_time v = None \<and> exit_time v' = None \<and> v_slot_id v = v_slot_id v'"
    from v have cv: "v = ?new \<or> v \<in> set (vehicles st)" by (auto simp add: vs)
    from v' have cv': "v' = ?new \<or> v' \<in> set (vehicles st)" by (auto simp add: vs)
    show "v = v'"
    proof (cases "v = ?new")
      case True
      show ?thesis
      proof (cases "v' = ?new")
        case True
        with \<open>v = ?new\<close> show ?thesis by simp
      next
        case False
        with cv' have "v' \<in> set (vehicles st)" by simp
        from old_other [OF this] h True new show ?thesis by simp
      qed
    next
      case False
      with cv have vin: "v \<in> set (vehicles st)" by simp
      show ?thesis
      proof (cases "v' = ?new")
        case True
        from old_other [OF vin] h True new show ?thesis by simp
      next
        case False
        with cv' have "v' \<in> set (vehicles st)" by simp
        with one vin h show ?thesis by (auto simp add: one_active_per_slot_def)
      qed
    qed
  qed
  have c: "closed_has_payment st'"
    unfolding closed_has_payment_def
  proof (intro ballI impI)
    fix v assume v: "v \<in> set (vehicles st')" and cl: "exit_time v \<noteq> None"
    from v cl new have "v \<in> set (vehicles st)" by (auto simp add: vs)
    with pay cl show "\<exists>p \<in> set (payments st'). p_vehicle_id p = vehicle_id v"
      by (auto simp add: closed_has_payment_def ps)
  qed
  from a b c show ?thesis by simp
qed

lemma inv_exited:
  assumes schema: "schema_ok st"
    and occ: "active_slot_occupied st"
    and one: "one_active_per_slot st"
    and pay: "closed_has_payment st"
    and sel: "select_active vnum st = Some (v, s)"
    and st': "st' = st\<lparr>vehicles := map (\<lambda>x. if vehicle_id x = vehicle_id v
                                            then x\<lparr>exit_time := Some t\<rparr> else x) (vehicles st),
                  slots := map (\<lambda>x. if slot_id x = v_slot_id v then x\<lparr>is_occupied := 0\<rparr> else x)
                             (slots st),
                  payments := payments st @
                     [\<lparr>payment_id = k, p_vehicle_id = vehicle_id v, amount = a,
                       payment_time = t\<rparr>],
                  seq_payments := k\<rparr>"
  shows "active_slot_occupied st' \<and> one_active_per_slot st' \<and> closed_has_payment st'"
proof -
  let ?close = "\<lambda>x. if vehicle_id x = vehicle_id v then x\<lparr>exit_time := Some t\<rparr> else x"
  let ?free = "\<lambda>x. if slot_id x = v_slot_id v then x\<lparr>is_occupied := 0\<rparr> else x"
  from select_active_Some [OF sel] have vin: "v \<in> set (vehicles st)" and
    vact: "exit_time v = None" by simp_all
  have vs: "vehicles st' = map ?close (vehicles st)" and ss: "slots st' = map ?free (slots st)"
    and ps: "payments st' = payments st @
       [\<lparr>payment_id = k, p_vehicle_id = vehicle_id v, amount = a, payment_time = t\<rparr>]"
    by (simp_all add: st')
  have still: "x \<in> set (vehicles st) \<and> exit_time x = None \<and> x \<noteq> v"
    if x: "x \<in> set (vehicles st')" "exit_time x = None" for x
  proof -
    from x(1) obtain y where y: "y \<in> set (vehicles st)" "x = ?close y"
      by (auto simp add: vs)
    have "vehicle_id y \<noteq> vehicle_id v"
    proof
      assume "vehicle_id y = vehicle_id v"
      with y(2) have "exit_time x = Some t" by simp
      with x(2) show False by simp
    qed
    with y have "x = y" "vehicle_id x \<noteq> vehicle_id v" by simp_all
    with y(1) x(2) show ?thesis by auto
  qed
  have a: "active_slot_occupied st'"
    unfolding active_slot_occupied_def
  proof (intro ballI impI)
    fix x assume x: "x \<in> set (vehicles st')" and act: "exit_time x = None"
    from still [OF x act] have xin: "x \<in> set (vehicles st)" and xv: "x \<noteq> v" by simp_all
    from occ xin act obtain s0 where s0: "s0 \<in> set (slots st)" "slot_id s0 = v_slot_id x"
      "is_occupied s0 = 1"
      by (auto simp add: active_slot_occupied_def)
    have "v_slot_id x \<noteq> v_slot_id v"
    proof
      assume "v_slot_id x = v_slot_id v"
      with one xin vin act vact have "x = v" by (auto simp add: one_active_per_slot_def)
      with xv show False by simp
    qed
    with s0 have same: "?free s0 = s0" by simp
    from occupy_member [OF s0(1), of "v_slot_id v" 0] have "s0 \<in> set (slots st')"
      by (simp only: same ss)
    with s0 show "\<exists>s \<in> set (slots st'). slot_id s = v_slot_id x \<and> is_occupied s = 1"
      by blast
  qed
  have b: "one_active_per_slot st'"
    unfolding one_active_per_slot_def
  proof (intro ballI impI)
    fix x x' assume x: "x \<in> set (vehicles st')" and x': "x' \<in> set (vehicles st')"
      and h: "exit_time x = None \<and> exit_time x' = None \<and> v_slot_id x = v_slot_id x'"
    from still [OF x] still [OF x'] h one show "x = x'"
      by (auto simp add: one_active_per_slot_def)
  qed
  have c: "closed_has_payment st'"
    unfolding closed_has_payment_def
  proof (intro ballI impI)
    fix x assume x: "x \<in> set (vehicles st')" and cl: "exit_time x \<noteq> None"
    from x obtain y where y: "y \<in> set (vehicles st)" "x = ?close y"
      by (auto simp add: vs)
    show "\<exists>p \<in> set (payments st'). p_vehicle_id p = vehicle_id x"
    proof (cases "vehicle_id y = vehicle_id v")
      case True
      with y(2) have "vehicle_id x = vehicle_id v" by simp
      then show ?thesis by (simp add: ps)
    next
      case False
      with y have "x = y" by simp
      with y(1) cl pay obtain p where "p \<in> set (payments st)" "p_vehicle_id p = vehicle_id x"
        by (auto simp add: closed_has_payment_def)
      then show ?thesis by (auto simp add: ps)
    qed
  qed
  from a b c show ?thesis by simp
qed

lemma inv_provisioned:
  assumes occ: "active_slot_occupied st"
    and one: "one_active_per_slot st"
    and pay: "closed_has_payment st"
    and ss: "slots st' = slots st @ news"
    and vs: "vehicles st' = vehicles st"
    and ps: "payments st' = payments st"
  shows "active_slot_occupied st' \<and> one_active_per_slot st' \<and> closed_has_payment st'"
proof -
  have "active_slot_occupied st'"
    using occ by (auto simp add: active_slot_occupied_def ss vs)
  moreover have "one_active_per_slot st'"
    using one by (simp add: one_active_per_slot_def vs)
  moreover have "closed_has_payment st'"
    using pay by (simp add: closed_has_payment_def vs ps)
  ultimately show ?thesis by simp
qed

lemma inv_submit:
  assumes "schema_ok st" and "active_slot_occupied st" and "one_active_per_slot st"
    and "closed_has_payment st"
  shows "active_slot_occupied (snd (submit st win_owner win_number now)) \<and>
         one_active_per_slot (snd (submit st win_owner win_number now)) \<and>
         closed_has_payment (snd (submit st win_owner win_number now))"
proof (cases "strip win_number = []")
  case True
  with assms show ?thesis by (simp add: submit_invalid)
next
  case False
  show ?thesis
  proof (cases "select_free_slot st")
    case None
    with False assms show ?thesis by (simp add: submit_full)
  next
    case (Some row)
    show ?thesis
    proof (cases "has_session st (strip win_number)")
      case True
      with False Some assms show ?thesis by (simp add: submit_conflict)
    next
      case fresh: False
      have "snd (submit st win_owner win_number now) =
              st\<lparr>vehicles := vehicles st @
                     [parked_row st (strip win_owner) (strip win_number) (slot_id row) now],
                 seq_vehicles := new_rowid (seq_vehicles st) (map vehicle_id (vehicles st)),
                 slots := map (\<lambda>s. if slot_id s = slot_id row then s\<lparr>is_occupied := 1\<rparr>
                                     else s) (slots st)\<rparr>"
        by (simp add: submit_parked [OF False Some fresh])
      with assms Some show ?thesis by (rule inv_parked)
    qed
  qed
qed

lemma inv_submit_exit:
  assumes "schema_ok st" and "active_slot_occupied st" and "one_active_per_slot st"
    and "closed_has_payment st"
  shows "active_slot_occupied (snd (submit_exit st win_number now)) \<and>
         one_active_per_slot (snd (submit_exit st win_number now)) \<and>
         closed_has_payment (snd (submit_exit st win_number now))"
proof (cases "strip win_number = []")
  case True
  with assms show ?thesis by (simp add: submit_exit_invalid)
next
  case False
  show ?thesis
  proof (cases "select_active (strip win_number) st")
    case None
    with False assms show ?thesis by (simp add: submit_exit_not_found)
  next
    case (Some r)
    obtain v s where r: "r = (v, s)" by (cases r)
    from Some r have sel: "select_active (strip win_number) st = Some (v, s)" by simp
    let ?a = "py_round2 (of_int (billed_minutes now (entry_time v)) * rate_per_min)"
    let ?k = "new_rowid (seq_payments st) (map payment_id (payments st))"
    have "snd (submit_exit st win_number now) =
            st\<lparr>vehicles := map (\<lambda>x. if vehicle_id x = vehicle_id v
                                       then x\<lparr>exit_time := Some (strftime now)\<rparr> else x)
                               (vehicles st),
               slots := map (\<lambda>x. if slot_id x = v_slot_id v then x\<lparr>is_occupied := 0\<rparr> else x)
                          (slots st),
               payments := payments st @
                  [\<lparr>payment_id = ?k, p_vehicle_id = vehicle_id v, amount = ?a,
                    payment_time = strftime now\<rparr>],
               seq_payments := ?k\<rparr>"
      by (simp add: submit_exit_found [OF False sel])
    with assms sel show ?thesis by (rule inv_exited)
  qed
qed

lemma inv_update_slots:
  assumes "active_slot_occupied st" and "one_active_per_slot st" and "closed_has_payment st"
  shows "active_slot_occupied (snd (update_slots st parsed)) \<and>
         one_active_per_slot (snd (update_slots st parsed)) \<and>
         closed_has_payment (snd (update_slots st parsed))"
proof (cases "\<exists>n. parsed = Some n \<and> 0 < n")
  case True
  then obtain n where n: "parsed = Some n" "0 < n" by blast
  let ?st' = "fold (\<lambda>i. insert_or_ignore_slot (slot_name i)) [1..n] st"
  from provision_appends [of slot_name "[1..n]" st] obtain news where
    "slots ?st' = slots st @ news" by blast
  with assms have "active_slot_occupied ?st' \<and> one_active_per_slot ?st' \<and>
                    closed_has_payment ?st'"
    by (rule inv_provisioned) (simp_all add: provision_others)
  then show ?thesis by (simp add: n update_slots_run)
next
  case False
  then have "parsed = None \<or> (\<exists>n. parsed = Some n \<and> n \<le> 0)"
    by (cases parsed) auto
  with assms show ?thesis by (simp add: update_slots_rejected)
qed

lemma inv_step:
  assumes "schema_ok st \<and> active_slot_occupied st \<and> one_active_per_slot st \<and>
           closed_has_payment st"
  shows "schema_ok (step st x) \<and> active_slot_occupied (step st x) \<and>
         one_active_per_slot (step st x) \<and> closed_has_payment (step st x)"
proof (cases x)
  case (AddSlots parsed)
  with assms inv_update_slots [of st parsed] show ?thesis
    by (simp add: schema_ok_update_slots)
next
  case (Park win_owner win_number now)
  with assms inv_submit [of st win_owner win_number now] show ?thesis
    by (simp add: schema_ok_submit)
next
  case (ExitVehicle win_number now)
  with assms inv_submit_exit [of st win_number now] show ?thesis
    by (simp add: schema_ok_submit_exit)
qed

lemma inv_run:
  "schema_ok st \<and> active_slot_occupied st \<and> one_active_per_slot st \<and> closed_has_payment st
   \<Longrightarrow> schema_ok (run st ops) \<and> active_slot_occupied (run st ops) \<and>
       one_active_per_slot (run st ops) \<and> closed_has_payment (run st ops)"
  unfolding run_def
proof (induction ops arbitrary: st)
  case Nil
  then show ?case by simp
next
  case (Cons x ops)
  from inv_step [OF Cons.prems, of x] Cons.IH [of "step st x"] show ?case by simp
qed

lemma inv_empty:
  "schema_ok empty_db \<and> active_slot_occupied empty_db \<and> one_active_per_slot empty_db \<and>
   closed_has_payment empty_db"
  by (simp add: schema_ok_def active_slot_occupied_def one_active_per_slot_def
      closed_has_payment_def empty_db_def)

lemma lot_returned_from_empty:
  "run empty_db [AddSlots (Some 1), Park ''Asha'' ''KA01AB1234'' 1000000000,
     ExitVehicle '' KA01AB1234 '' 1300999999] = lot_returned"
  by (simp add: eval_defs lot_returned_def)

text \<open>
  C5. In every state that a sequence of button presses reaches from the empty database,
  the slot of each active session exists and is marked occupied, no two active sessions
  share a slot, and each session with an exit time has a payment row.
\<close>

theorem reachable_relationship_invariants:
  "active_slot_occupied (run empty_db ops) \<and> one_active_per_slot (run empty_db ops) \<and>
   closed_has_payment (run empty_db ops)"
  using inv_run [OF inv_empty, of ops] by simp

theorem reachable_relationship_invariants_witness:
  "(\<exists>v \<in> set (vehicles lot_parked). exit_time v = None) \<and>
   active_slot_occupied lot_parked \<and> one_active_per_slot lot_parked \<and>
   (\<exists>v \<in> set (vehicles lot_returned). exit_time v \<noteq> None) \<and>
   closed_has_payment lot_returned"
proof -
  have 1: "\<exists>v \<in> set (vehicles lot_parked). exit_time v = None"
    by (simp add: lot_parked_def)
  have 2: "\<exists>v \<in> set (vehicles lot_returned). exit_time v \<noteq> None"
    by (simp add: lot_returned_def)
  from reachable_relationship_invariants
         [of "[AddSlots (Some 1), Park ''Asha'' ''KA01AB1234'' 1000000000]"]
  have 3: "active_slot_occupied lot_parked \<and> one_active_per_slot lot_parked"
    by (simp only: lot_parked_reachable)
  from reachable_relationship_invariants
         [of "[AddSlots (Some 1), Park ''Asha'' ''KA01AB1234'' 1000000000,
               ExitVehicle '' KA01AB1234 '' 1300999999]"]
  have 4: "closed_has_payment lot_returned"
    by (simp only: lot_returned_from_empty)
  from 1 2 3 4 show ?thesis by simp
qed

subsection \<open>A closed session stays as it is\<close>

lemma find_append_Some: "List.find P xs = Some x \<Longrightarrow> List.find P (xs @ ys) = Some x"
  by (induction xs) (auto split: if_splits)

lemma find_close_other:
  "vid \<noteq> vid0 \<Longrightarrow>
   List.find (\<lambda>x. vehicle_id x = vid)
     (map (\<lambda>x. if vehicle_id x = vid0 then x\<lparr>exit_time := t\<rparr> else x) vs)
   = List.find (\<lambda>x. vehicle_id x = vid) vs"
  by (induction vs) auto

lemma closed_submit:
  assumes "session st vid = Some v"
  shows "session (snd (submit st win_owner win_number now)) vid = Some v \<and>
         bills (snd (submit st win_owner win_number now)) vid = bills st vid"
proof (cases "strip win_number = []")
  case True
  with assms show ?thesis by (simp add: submit_invalid)
next
  case False
  show ?thesis
  proof (cases "select_free_slot st")
    case None
    with False assms show ?thesis by (simp add: submit_full)
  next
    case (Some row)
    show ?thesis
    proof (cases "has_session st (strip win_number)")
      case True
      with False Some assms show ?thesis by (simp add: submit_conflict)
    next
      case fresh: False
      from assms show ?thesis
        by (simp add: submit_parked [OF False Some fresh] session_def bills_def
            find_append_Some)
    qed
  qed
qed

lemma closed_submit_exit:
  assumes schema: "schema_ok st" and ses: "session st vid = Some v"
    and closed: "exit_time v \<noteq> None"
  shows "session (snd (submit_exit st win_number now)) vid = Some v \<and>
         bills (snd (submit_exit st win_number now)) vid = bills st vid"
proof (cases "strip win_number = []")
  case True
  with ses show ?thesis by (simp add: submit_exit_invalid)
next
  case False
  show ?thesis
  proof (cases "select_active (strip win_number) st")
    case None
    with False ses show ?thesis by (simp add: submit_exit_not_found)
  next
    case (Some r)
    obtain v0 s where r: "r = (v0, s)" by (cases r)
    from Some r have sel: "select_active (strip win_number) st = Some (v0, s)" by simp
    from select_active_Some [OF sel] have v0: "v0 \<in> set (vehicles st)" "exit_time v0 = None"
      by simp_all
    from ses have v: "v \<in> set (vehicles st)" "vehicle_id v = vid"
      by (auto simp add: session_def find_Some_iff)
    from schema have d: "distinct (map vehicle_id (vehicles st))" by (simp add: schema_ok_def)
    have ne: "vid \<noteq> vehicle_id v0"
    proof
      assume "vid = vehicle_id v0"
      with distinct_key_eq [OF d v(1) v0(1)] v(2) have "v = v0" by simp
      with closed v0(2) show False by simp
    qed
    from ses ne show ?thesis
      by (simp add: submit_exit_found [OF False sel] session_def bills_def find_close_other)
  qed
qed

lemma closed_update_slots:
  assumes "session st vid = Some v"
  shows "session (snd (update_slots st parsed)) vid = Some v \<and>
         bills (snd (update_slots st parsed)) vid = bills st vid"
proof (cases "\<exists>n. parsed = Some n \<and> 0 < n")
  case True
  then obtain n where n: "parsed = Some n" "0 < n" by blast
  from assms show ?thesis
    by (simp add: n update_slots_run session_def bills_def provision_others)
next
  case False
  then have "parsed = None \<or> (\<exists>n. parsed = Some n \<and> n \<le> 0)"
    by (cases parsed) auto
  with assms show ?thesis by (simp add: update_slots_rejected)
qed

lemma closed_step:
  assumes "schema_ok st" and "session st vid = Some v" and "exit_time v \<noteq> None"
  shows "session (step st x) vid = Some v \<and> bills (step st x) vid = bills st vid"
proof (cases x)
  case (AddSlots parsed)
  with closed_update_slots [OF assms(2)] show ?thesis by simp
next
  case (Park win_owner win_number now)
  with closed_submit [OF assms(2)] show ?thesis by simp
next
  case (ExitVehicle win_number now)
  with closed_submit_exit [OF assms] show ?thesis by simp
qed

lemma closed_run:
  "schema_ok st \<Longrightarrow> session st vid = Some v \<Longrightarrow> exit_time v \<noteq> None \<Longrightarrow>
   session (run st ops) vid = Some v \<and> bills (run st ops) vid = bills st vid"
  unfolding run_def
proof (induction ops arbitrary: st)
  case Nil
  then show ?case by simp
next
  case (Cons x ops)
  from closed_step [OF Cons.prems, of x]
  have s: "session (step st x) vid = Some v" and b: "bills (step st x) vid = bills st vid"
    by simp_all
  from Cons.IH [OF schema_ok_step [OF Cons.prems(1)] s Cons.prems(3)] b
  show ?case by simp
qed

text \<open>
  C8. Once the session with key \<open>vid\<close> has an exit time, whatever buttons are pressed
  afterwards the row with that key is the same row, so its exit time is neither cleared
  nor changed, and the payment rows recorded for it are the same: it is not billed again.
\<close>

theorem closed_session_never_changes:
  assumes "schema_ok st" and "session st vid = Some v" and "exit_time v \<noteq> None"
  shows "session (run st ops) vid = Some v \<and> bills (run st ops) vid = bills st vid"
  using assms by (rule closed_run)

theorem closed_session_never_changes_witness:
  "schema_ok lot_returned \<and>
   session lot_returned 1 =
     Some \<lparr>vehicle_id = 1, owner_name = ''Asha'', vehicle_number = ''KA01AB1234'',
           v_slot_id = 1, entry_time = 1000, exit_time = Some 1300\<rparr> \<and>
   session (run lot_returned
      [ExitVehicle ''KA01AB1234'' 1500000000, Park ''Asha'' ''KA01AB1234'' 1600000000,
       Park ''Ravi'' ''MH12DE1433'' 1700000000, ExitVehicle ''MH12DE1433'' 2000000000]) 1 =
     Some \<lparr>vehicle_id = 1, owner_name = ''Asha'', vehicle_number = ''KA01AB1234'',
           v_slot_id = 1, entry_time = 1000, exit_time = Some 1300\<rparr> \<and>
   bills (run lot_returned
      [ExitVehicle ''KA01AB1234'' 1500000000, Park ''Asha'' ''KA01AB1234'' 1600000000,
       Park ''Ravi'' ''MH12DE1433'' 1700000000, ExitVehicle ''MH12DE1433'' 2000000000]) 1 =
     [\<lparr>payment_id = 1, p_vehicle_id = 1, amount = 5, payment_time = 1300\<rparr>]"
proof -
  let ?v = "\<lparr>vehicle_id = 1, owner_name = ''Asha'', vehicle_number = ''KA01AB1234'',
           v_slot_id = 1, entry_time = 1000, exit_time = Some (1300::int)\<rparr>"
  have 1: "schema_ok lot_returned" by (simp add: schema_ok_def lot_returned_def)
  have 2: "session lot_returned 1 = Some ?v" by (simp add: session_def lot_returned_def)
  have 3: "exit_time ?v \<noteq> None" by simp
  have 4: "bills lot_returned 1 =
             [\<lparr>payment_id = 1, p_vehicle_id = 1, amount = 5, payment_time = 1300\<rparr>]"
    by (simp add: bills_def lot_returned_def)
  from closed_session_never_changes [OF 1 2 3] 1 2 4 show ?thesis by simp
qed

end
